theory Spec2Isabelle
  imports Complex_Main "HOL-Library.Word" "HOL-Library.Log_Nat"
begin

unbundle bit_operations_syntax

section \<open>Buffers, indices and the JavaScript operators the services use\<close>

text \<open>
  A Node \<open>Buffer\<close> is a list of bytes. Array indices are JavaScript numbers; the
  positions the services handle are integers, and an integer may be negative, so an
  index is an \<open>int\<close> (fractions and \<open>NaN\<close> are not represented). Reading a \<open>Buffer\<close> outside \<open>0 .. length - 1\<close> yields
  \<open>undefined\<close> (here \<open>None\<close>), writing there is ignored, and the bitwise
  operators turn \<open>undefined\<close> and \<open>NaN\<close> into 0.
\<close>

type_synonym byte = "8 word"
type_synonym buffer = "byte list"

definition bufferGet :: "buffer \<Rightarrow> int \<Rightarrow> byte option" where
  "bufferGet data pos =
     (if 0 \<le> pos \<and> pos < int (length data) then Some (data ! nat pos) else None)"

definition bufferSet :: "buffer \<Rightarrow> int \<Rightarrow> byte \<Rightarrow> buffer" where
  "bufferSet data pos v =
     (if 0 \<le> pos \<and> pos < int (length data) then data[nat pos := v] else data)"

text \<open>The operand of \<open>&\<close> read from a buffer: \<open>undefined\<close> counts as 0.\<close>

definition toInt :: "byte option \<Rightarrow> byte" where
  "toInt v = (case v of None \<Rightarrow> 0 | Some b \<Rightarrow> b)"

text \<open>
  \<open>parseInt(c)\<close> on a string of one character: the digit's value for \<open>'0'\<close> to
  \<open>'9'\<close>, \<open>NaN\<close> (here \<open>None\<close>) for every other character.
\<close>

definition parseInt :: "char \<Rightarrow> nat option" where
  "parseInt c =
     (let k = (of_char c :: nat) in if 48 \<le> k \<and> k \<le> 57 then Some (k - 48) else None)"

text \<open>The operand of \<open>|\<close> coming from \<open>parseInt\<close>: \<open>NaN\<close> counts as 0.\<close>

definition bitOperand :: "nat option \<Rightarrow> byte" where
  "bitOperand v = (case v of None \<Rightarrow> 0 | Some d \<Rightarrow> of_nat d)"

text \<open>\<open>(x & 1).toString()\<close>: the operand is 0 or 1, the result one character.\<close>

definition toString01 :: "byte \<Rightarrow> char" where
  "toString01 v = (if v = 1 then CHR ''1'' else CHR ''0'')"

section \<open>SteganographyService: positions, hash, embedding, extraction\<close>

text \<open>
  \<open>generateEmbedPositions\<close>: \<open>step = Math.floor(totalPixels / 2048)\<close>, then the loop
  \<open>for (i = 0; i < 2048 && i * step < totalPixels; i++) positions.push(i * step)\<close>.
  The argument is \<open>width * height * channels\<close>, a natural number.
\<close>

function generateLoop :: "nat \<Rightarrow> nat \<Rightarrow> nat \<Rightarrow> int list \<Rightarrow> int list" where
  "generateLoop totalPixels step i positions =
     (if i < 2048 \<and> i * step < totalPixels
      then generateLoop totalPixels step (i + 1) (positions @ [int (i * step)])
      else positions)"
  by pat_completeness auto
termination
  by (relation "measure (\<lambda>(totalPixels, step, i, positions). 2048 - i)") auto

definition generateEmbedPositions :: "nat \<Rightarrow> int list" where
  "generateEmbedPositions totalPixels =
     generateLoop totalPixels (totalPixels div 2048) 0 []"

text \<open>
  \<open>computeImageHash\<close>: copy the buffer, clear the least significant bit at every
  position below the buffer's length, hash the copy. The digest
  \<open>createHash('sha256')\<close> belongs to Node; it is the parameter \<open>sha256\<close>.
\<close>

definition clearStep :: "int \<Rightarrow> buffer \<Rightarrow> buffer" where
  "clearStep pos modifiedData =
     (if pos < int (length modifiedData)
      then bufferSet modifiedData pos (toInt (bufferGet modifiedData pos) AND 0xFE)
      else modifiedData)"

definition clearedCopy :: "buffer \<Rightarrow> int list \<Rightarrow> buffer" where
  "clearedCopy pixelData embedPositions = fold clearStep embedPositions pixelData"

definition computeImageHash :: "(buffer \<Rightarrow> string) \<Rightarrow> buffer \<Rightarrow> int list \<Rightarrow> string" where
  "computeImageHash sha256 pixelData embedPositions =
     sha256 (clearedCopy pixelData embedPositions)"

text \<open>
  \<open>embedLSB\<close>: the loop runs while \<open>i < bits.length && i < positions.length\<close>, so it
  walks both sequences together and stops when either ends.
\<close>

definition embedStep :: "char \<Rightarrow> int \<Rightarrow> buffer \<Rightarrow> buffer" where
  "embedStep c pos modifiedData =
     (if pos < int (length modifiedData)
      then bufferSet modifiedData pos
             ((toInt (bufferGet modifiedData pos) AND 0xFE) OR bitOperand (parseInt c))
      else modifiedData)"

fun embedLSB :: "buffer \<Rightarrow> string \<Rightarrow> int list \<Rightarrow> buffer" where
  "embedLSB modifiedData (c # bits) (pos # positions) =
     embedLSB (embedStep c pos modifiedData) bits positions"
| "embedLSB modifiedData _ _ = modifiedData"

text \<open>\<open>extractLSB\<close>: one character is appended for every position below the length.\<close>

definition extractStep :: "buffer \<Rightarrow> int \<Rightarrow> string \<Rightarrow> string" where
  "extractStep pixelData pos bits =
     (if pos < int (length pixelData)
      then bits @ [toString01 (toInt (bufferGet pixelData pos) AND 1)]
      else bits)"

definition extractLSB :: "buffer \<Rightarrow> int list \<Rightarrow> string" where
  "extractLSB pixelData positions = fold (extractStep pixelData) positions []"

text \<open>A bit string is a string of the characters \<open>'0'\<close> and \<open>'1'\<close>.\<close>

definition bitString :: "string \<Rightarrow> bool" where
  "bitString bits = list_all (\<lambda>c. c = CHR ''0'' \<or> c = CHR ''1'') bits"

text \<open>A position that addresses a byte of the buffer.\<close>

definition inBuffer :: "buffer \<Rightarrow> int \<Rightarrow> bool" where
  "inBuffer data pos = (0 \<le> pos \<and> pos < int (length data))"

text \<open>The character \<open>extractLSB\<close> appends for a position below the length.\<close>

definition readBit :: "buffer \<Rightarrow> int \<Rightarrow> char" where
  "readBit pixelData pos = toString01 (toInt (bufferGet pixelData pos) AND 1)"

text \<open>
  \<open>bitsToSignature\<close>: the loop advances by four characters; a group
  \<open>bits.substr(i, 4)\<close> shorter than four is dropped. \<open>parseInt(nibble, 2)\<close> skips
  leading white space, reads a sign, then the longest prefix of binary digits, and is
  \<open>NaN\<close> (here \<open>None\<close>) when that prefix is empty; \<open>toString(16)\<close> prints the
  value in hexadecimal. A character here is a code unit below 256: the white space is
  tab, line feed, vertical tab, form feed, carriage return, space and the no-break
  space U+00A0; the white space of higher code units is not represented.
\<close>

definition isWhiteSpace :: "char \<Rightarrow> bool" where
  "isWhiteSpace c = ((of_char c :: nat) \<in> {9, 10, 11, 12, 13, 32, 160})"

definition parseIntRadix2 :: "string \<Rightarrow> int option" where
  "parseIntRadix2 s =
     (let t = dropWhile isWhiteSpace s;
          negative = (case t of [] \<Rightarrow> False | c # r \<Rightarrow> c = CHR ''-'');
          u = (case t of [] \<Rightarrow> [] | c # r \<Rightarrow> if c = CHR ''-'' \<or> c = CHR ''+'' then r else t);
          ds = takeWhile (\<lambda>c. c = CHR ''0'' \<or> c = CHR ''1'') u;
          v = foldl (\<lambda>acc c. 2 * acc + (if c = CHR ''1'' then 1 else 0)) (0 :: int) ds
      in if ds = [] then None else Some (if negative then - v else v))"

definition hexDigit :: "nat \<Rightarrow> char" where
  "hexDigit n = ''0123456789abcdef'' ! (n mod 16)"

definition toStringRadix16 :: "int option \<Rightarrow> string" where
  "toStringRadix16 v =
     (case v of None \<Rightarrow> ''NaN''
      | Some n \<Rightarrow> (if n < 0 then ''-'' else []) @ [hexDigit (nat \<bar>n\<bar>)])"

fun bitsToSignature :: "string \<Rightarrow> string" where
  "bitsToSignature (a # b # c # d # rest) =
     toStringRadix16 (parseIntRadix2 [a, b, c, d]) @ bitsToSignature rest"
| "bitsToSignature _ = []"

text \<open>
  A JavaScript number that may be \<open>NaN\<close>, for the integrity score: \<open>0 / 0\<close> is
  \<open>NaN\<close>, \<open>Math.round(NaN)\<close> is \<open>NaN\<close>, and \<open>100 - NaN\<close> is \<open>NaN\<close>.
\<close>

datatype number = Num int | NaN

fun numberMinus :: "number \<Rightarrow> number \<Rightarrow> number" where
  "numberMinus (Num a) (Num b) = Num (a - b)"
| "numberMinus _ _ = NaN"

text \<open>
  The arithmetic of \<open>calculateIntegrityScore\<close> is on IEEE doubles. \<open>toDouble x\<close> is
  the double nearest to a positive rational \<open>x\<close>: with \<open>2 ^ e \<le> x < 2 ^ (e + 1)\<close>,
  \<open>x\<close> is rounded to a multiple of \<open>2 ^ (e - 52)\<close>, a tie going to the even
  multiple. Overflow and subnormal numbers do not arise for a quotient of two string
  lengths, and the lengths themselves, below \<open>2 ^ 53\<close>, are doubles.
\<close>

definition roundHalfEven :: "rat \<Rightarrow> int" where
  "roundHalfEven x =
     (let f = \<lfloor>x\<rfloor>; d = x - of_int f
      in if d < 1 / 2 then f else if 1 / 2 < d then f + 1 else if even f then f else f + 1)"

definition pow2 :: "int \<Rightarrow> rat" where
  "pow2 n = (if 0 \<le> n then 2 ^ nat n else 1 / 2 ^ nat (- n))"

text \<open>The exponent \<open>e\<close> of a positive rational, from the bit lengths of its fraction.\<close>

definition exponentOf :: "rat \<Rightarrow> int" where
  "exponentOf x =
     (let (a, b) = quotient_of x
      in if b \<le> a then bitlen (a div b) - 1
         else (let k = bitlen b - bitlen a
               in if b \<le> a * 2 ^ nat k then - k else - (k + 1)))"

definition toDouble :: "rat \<Rightarrow> rat" where
  "toDouble x =
     (if x \<le> 0 then 0
      else (let ulp = pow2 (exponentOf x - 52)
            in of_int (roundHalfEven (x / ulp)) * ulp))"

text \<open>
  \<open>calculateIntegrityScore\<close>: \<open>Math.round((validBits / totalBits) * 100)\<close>, with the
  division and the multiplication each rounded to a double, and \<open>Math.round x\<close> the
  integer \<open>floor (x + 1/2)\<close>; \<open>0 / 0\<close> is \<open>NaN\<close>.
\<close>

definition calculateIntegrityScore :: "string \<Rightarrow> number" where
  "calculateIntegrityScore bits =
     (let totalBits = length bits;
          validBits = length (filter (\<lambda>bit. bit = CHR ''0'' \<or> bit = CHR ''1'') bits)
      in if totalBits = 0 then NaN
         else Num \<lfloor>toDouble (toDouble (of_nat validBits / of_nat totalBits) * 100) + 1 / 2\<rfloor>)"

section \<open>Exceptions\<close>

text \<open>
  A thrown value is an \<open>Error\<close> with its message or some other value; a computation
  that may throw returns \<open>error + 'a\<close>, with \<open>Inl\<close> for the throw.
\<close>

datatype error = Error string | NonError

definition errorMessageOf :: "error \<Rightarrow> string" where
  "errorMessageOf e = (case e of Error m \<Rightarrow> m | NonError \<Rightarrow> ''Unknown error'')"

section \<open>CryptographyService\<close>

definition getSigningAlgorithm :: "string \<Rightarrow> error + string" where
  "getSigningAlgorithm signatureType =
     (if signatureType = ''RSA-2048'' \<or> signatureType = ''RSA-4096'' then Inr ''sha256''
      else if signatureType = ''ECDSA-256'' then Inr ''sha256''
      else Inl (Error (''Unknown signature type: '' @ signatureType)))"

text \<open>
  \<open>verify\<close>: the body of the \<open>try\<close> block, then the \<open>catch\<close> that returns
  \<open>false\<close>. Node's \<open>createVerify(algorithm)\<close>, \<open>update(data)\<close> and
  \<open>verify(publicKey, signature, 'hex')\<close> are the parameter \<open>nodeVerify\<close>, which
  may throw.
\<close>

type_synonym nodeVerify = "string \<Rightarrow> string \<Rightarrow> string \<Rightarrow> string \<Rightarrow> error + bool"

definition verifyBody :: "nodeVerify \<Rightarrow> string \<Rightarrow> string \<Rightarrow> string \<Rightarrow> string \<Rightarrow> error + bool" where
  "verifyBody node data signature publicKey signatureType =
     (case getSigningAlgorithm signatureType of
        Inl e \<Rightarrow> Inl e
      | Inr algorithm \<Rightarrow> node algorithm data publicKey signature)"

definition verify :: "nodeVerify \<Rightarrow> string \<Rightarrow> string \<Rightarrow> string \<Rightarrow> string \<Rightarrow> error + bool" where
  "verify node data signature publicKey signatureType =
     (case verifyBody node data signature publicKey signatureType of
        Inl error \<Rightarrow> Inr False
      | Inr result \<Rightarrow> Inr result)"

section \<open>Verification of a candidate image\<close>

text \<open>
  The column \<open>embed_positions\<close> holds JSON: \<open>null\<close> (skipped by
  \<open>if (!embedPositions) continue\<close>, as every falsy value is), an array of
  integers, or a truthy value that \<open>for ... of\<close> cannot iterate (an object, a
  number, \<open>true\<close>), on which \<open>extractLSB\<close> throws a \<open>TypeError\<close>. Strings
  and arrays with entries that are not integers are not represented.
\<close>

datatype jsonPositions = JsonNull | JsonArray "int list" | JsonOther

record AuthenticatedImage =
  id' :: nat
  artistName :: string
  artworkTitle :: string
  creationDate :: string
  publicKey :: string
  signatureType :: string
  imageData :: string
  embedPositions :: jsonPositions

record ImageMetadata =
  metaArtistName :: string
  metaArtworkTitle :: string
  metaCreationDate :: string

record Attempt =
  success :: bool
  imageId :: nat
  signature :: string
  attemptPublicKey :: string
  attemptSignatureType :: string
  attemptEmbedPositions :: "int list"
  integrityScore :: number
  metadata :: ImageMetadata

record VerificationResult =
  isValid :: bool
  resultImageId :: "nat option"
  extractedSignature :: "string option"
  resultIntegrityScore :: number
  resultMethod :: string
  errorMessage :: "string option"
  imageMetadata :: "ImageMetadata option"

text \<open>
  What the service takes from outside: \<open>sharp(...).raw().ensureAlpha().toBuffer\<close>,
  the store's \<open>getAllAuthenticatedImages\<close>, the SHA-256 digest and Node's signature
  check. The first two may throw.
\<close>

record Env =
  sharpRaw :: "buffer \<Rightarrow> error + buffer"
  getAllAuthenticatedImages :: "error + AuthenticatedImage list"
  sha256 :: "buffer \<Rightarrow> string"
  nodeVerifier :: nodeVerify

text \<open>
  The body of the inner \<open>try\<close> of \<open>attemptSignatureExtraction\<close> for one image:
  \<open>Inr None\<close> is the \<open>continue\<close>, \<open>Inl\<close> the throw.
\<close>

definition extractionBody :: "buffer \<Rightarrow> AuthenticatedImage \<Rightarrow> error + Attempt option" where
  "extractionBody pixelData img =
     (case embedPositions img of
        JsonNull \<Rightarrow> Inr None
      | JsonOther \<Rightarrow> Inl (Error ''positions is not iterable'')
      | JsonArray positions \<Rightarrow>
          (let extractedBits = extractLSB pixelData positions;
               extractedSignature = bitsToSignature extractedBits;
               score = calculateIntegrityScore extractedBits
           in Inr (Some \<lparr>success = True, imageId = id' img,
                 signature = extractedSignature,
                 attemptPublicKey = publicKey img,
                 attemptSignatureType = signatureType img,
                 attemptEmbedPositions = positions,
                 integrityScore = score,
                 metadata = \<lparr>metaArtistName = artistName img,
                              metaArtworkTitle = artworkTitle img,
                              metaCreationDate = creationDate img\<rparr>\<rparr>)))"

fun extractionLoop :: "buffer \<Rightarrow> AuthenticatedImage list \<Rightarrow> Attempt list \<Rightarrow> Attempt list" where
  "extractionLoop pixelData [] attempts = attempts"
| "extractionLoop pixelData (img # images) attempts =
     (case extractionBody pixelData img of
        Inl error \<Rightarrow> extractionLoop pixelData images attempts
      | Inr None \<Rightarrow> extractionLoop pixelData images attempts
      | Inr (Some attempt) \<Rightarrow> extractionLoop pixelData images (attempts @ [attempt]))"

definition attemptSignatureExtraction :: "Env \<Rightarrow> buffer \<Rightarrow> Attempt list" where
  "attemptSignatureExtraction env pixelData =
     (case getAllAuthenticatedImages env of
        Inl error \<Rightarrow> []
      | Inr images \<Rightarrow> extractionLoop pixelData images [])"

definition validResult :: "Attempt \<Rightarrow> VerificationResult" where
  "validResult attempt =
     \<lparr>isValid = True, resultImageId = Some (imageId attempt),
      extractedSignature = Some (signature attempt),
      resultIntegrityScore = integrityScore attempt,
      resultMethod = ''LSB_extraction'', errorMessage = None,
      imageMetadata = Some (metadata attempt)\<rparr>"

definition noMatchResult :: VerificationResult where
  "noMatchResult =
     \<lparr>isValid = False, resultImageId = None, extractedSignature = None,
      resultIntegrityScore = Num 0, resultMethod = ''LSB_extraction'',
      errorMessage = Some ''No valid signature found or signature verification failed'',
      imageMetadata = None\<rparr>"

definition failedResult :: "error \<Rightarrow> VerificationResult" where
  "failedResult error =
     \<lparr>isValid = False, resultImageId = None, extractedSignature = None,
      resultIntegrityScore = Num 0, resultMethod = ''LSB_extraction'',
      errorMessage = Some (''Verification failed: '' @ errorMessageOf error),
      imageMetadata = None\<rparr>"

text \<open>
  The \<open>for\<close> loop of \<open>verifyImage\<close> over the attempts. A throw inside it would
  leave the loop for the outer \<open>catch\<close>.
\<close>

fun verifyLoop :: "Env \<Rightarrow> buffer \<Rightarrow> Attempt list \<Rightarrow> error + VerificationResult" where
  "verifyLoop env pixelData [] = Inr noMatchResult"
| "verifyLoop env pixelData (attempt # attempts) =
     (if success attempt
      then (case verify (nodeVerifier env)
                   (computeImageHash (sha256 env) pixelData (attemptEmbedPositions attempt))
                   (signature attempt) (attemptPublicKey attempt)
                   (attemptSignatureType attempt) of
              Inl error \<Rightarrow> Inl error
            | Inr valid \<Rightarrow>
                if valid then Inr (validResult attempt)
                else verifyLoop env pixelData attempts)
      else verifyLoop env pixelData attempts)"

definition verifyImage :: "Env \<Rightarrow> buffer \<Rightarrow> VerificationResult" where
  "verifyImage env imageBuffer =
     (case (case sharpRaw env imageBuffer of
              Inl error \<Rightarrow> Inl error
            | Inr pixelData \<Rightarrow>
                verifyLoop env pixelData (attemptSignatureExtraction env pixelData)) of
        Inl error \<Rightarrow> failedResult error
      | Inr result \<Rightarrow> result)"

text \<open>
  A record whose extracted signature verifies: its positions are an array, and
  \<open>verify\<close> accepts the signature read at them against the hash taken over them.
\<close>

definition recordVerifies :: "Env \<Rightarrow> buffer \<Rightarrow> AuthenticatedImage \<Rightarrow> bool" where
  "recordVerifies env pixelData img =
     (case embedPositions img of
        JsonArray positions \<Rightarrow>
          verify (nodeVerifier env) (computeImageHash (sha256 env) pixelData positions)
            (bitsToSignature (extractLSB pixelData positions))
            (publicKey img) (signatureType img) = Inr True
      | _ \<Rightarrow> False)"

text \<open>
  A record whose processing throws: its positions cannot be iterated, or the body of
  \<open>verify\<close> throws on its key, signature or scheme.
\<close>

definition recordThrows :: "Env \<Rightarrow> buffer \<Rightarrow> AuthenticatedImage \<Rightarrow> bool" where
  "recordThrows env pixelData img =
     (case embedPositions img of
        JsonNull \<Rightarrow> False
      | JsonOther \<Rightarrow> True
      | JsonArray positions \<Rightarrow>
          isl (verifyBody (nodeVerifier env)
                 (computeImageHash (sha256 env) pixelData positions)
                 (bitsToSignature (extractLSB pixelData positions))
                 (publicKey img) (signatureType img)))"

text \<open>
  The attempts \<open>attemptSignatureExtraction\<close> pushes for one record (none when the
  record is skipped), and an attempt that the loop of \<open>verifyImage\<close> accepts.
\<close>

definition attemptsOf :: "buffer \<Rightarrow> AuthenticatedImage \<Rightarrow> Attempt list" where
  "attemptsOf pixelData img =
     (case extractionBody pixelData img of
        Inl error \<Rightarrow> []
      | Inr None \<Rightarrow> []
      | Inr (Some attempt) \<Rightarrow> [attempt])"

definition attemptVerifies :: "Env \<Rightarrow> buffer \<Rightarrow> Attempt \<Rightarrow> bool" where
  "attemptVerifies env pixelData attempt =
     (success attempt \<and>
      verify (nodeVerifier env)
        (computeImageHash (sha256 env) pixelData (attemptEmbedPositions attempt))
        (signature attempt) (attemptPublicKey attempt) (attemptSignatureType attempt) = Inr True)"

section \<open>AttackSimulationService\<close>

record AttackResult =
  attackType :: string
  parameters :: "(string \<times> rat) list"
  beforeImageData :: string
  afterImageData :: string
  verificationPassed :: bool
  integrityLoss :: number
  psnr :: real
  extractionSuccessful :: bool

text \<open>
  The five transforms and \<open>calculatePSNR\<close> run sharp, \<open>Math.random\<close> and
  floating-point arithmetic: they are parameters. A transform may throw;
  \<open>calculatePSNR\<close> catches its own errors. The Base64 codec is Node's.
\<close>

record AttackEnv =
  applyJPEGCompression :: "buffer \<Rightarrow> rat \<Rightarrow> error + buffer"
  applyGaussianNoise :: "buffer \<Rightarrow> rat \<Rightarrow> error + buffer"
  applyCropping :: "buffer \<Rightarrow> rat \<Rightarrow> error + buffer"
  applyRotation :: "buffer \<Rightarrow> rat \<Rightarrow> error + buffer"
  applyScaling :: "buffer \<Rightarrow> rat \<Rightarrow> error + buffer"
  calculatePSNR :: "buffer \<Rightarrow> buffer \<Rightarrow> real"
  fromBase64 :: "string \<Rightarrow> buffer"
  toBase64 :: "buffer \<Rightarrow> string"

text \<open>The \<open>switch\<close> of \<open>simulateAttack\<close>: the parameters and the attacked buffer.\<close>

definition withParameters ::
  "(string \<times> rat) list \<Rightarrow> error + buffer \<Rightarrow> error + (string \<times> rat) list \<times> buffer" where
  "withParameters ps r = (case r of Inl e \<Rightarrow> Inl e | Inr attacked \<Rightarrow> Inr (ps, attacked))"

definition applyAttack ::
  "AttackEnv \<Rightarrow> buffer \<Rightarrow> string \<Rightarrow> error + (string \<times> rat) list \<times> buffer" where
  "applyAttack aenv originalBuffer kind =
     (if kind = ''jpeg_compression''
      then withParameters [(''quality'', 70)] (applyJPEGCompression aenv originalBuffer 70)
      else if kind = ''gaussian_noise''
      then withParameters [(''sigma'', 1 / 10)] (applyGaussianNoise aenv originalBuffer (1 / 10))
      else if kind = ''cropping''
      then withParameters [(''cropPercentage'', 10)] (applyCropping aenv originalBuffer 10)
      else if kind = ''rotation''
      then withParameters [(''angle'', 5)] (applyRotation aenv originalBuffer 5)
      else if kind = ''scaling''
      then withParameters [(''scaleFactor'', 8 / 10)] (applyScaling aenv originalBuffer (8 / 10))
      else Inl (Error (''Unknown attack type: '' @ kind)))"

text \<open>
  \<open>simulateAttack\<close> (its third parameter, the image record, is not used by the
  source): the attack, then \<open>verifyImage\<close> on the attacked buffer and the PSNR.
\<close>

definition simulateAttack ::
  "Env \<Rightarrow> AttackEnv \<Rightarrow> buffer \<Rightarrow> string \<Rightarrow> error + AttackResult" where
  "simulateAttack env aenv originalBuffer kind =
     (case applyAttack aenv originalBuffer kind of
        Inl e \<Rightarrow> Inl e
      | Inr (ps, attackedBuffer) \<Rightarrow>
          (let verificationResult = verifyImage env attackedBuffer
           in Inr \<lparr>attackType = kind, parameters = ps,
                 beforeImageData = toBase64 aenv originalBuffer,
                 afterImageData = toBase64 aenv attackedBuffer,
                 verificationPassed = isValid verificationResult,
                 integrityLoss =
                   numberMinus (Num 100) (resultIntegrityScore verificationResult),
                 psnr = calculatePSNR aenv originalBuffer attackedBuffer,
                 extractionSuccessful = (extractedSignature verificationResult \<noteq> None)\<rparr>))"

text \<open>The result \<open>runSimulations\<close> pushes in its \<open>catch\<close>.\<close>

definition failedAttack :: "string \<Rightarrow> string \<Rightarrow> AttackResult" where
  "failedAttack kind data =
     \<lparr>attackType = kind, parameters = [], beforeImageData = data, afterImageData = data,
      verificationPassed = False, integrityLoss = Num 100, psnr = 0,
      extractionSuccessful = False\<rparr>"

fun simulationLoop ::
  "Env \<Rightarrow> AttackEnv \<Rightarrow> string \<Rightarrow> buffer \<Rightarrow> string list \<Rightarrow> AttackResult list \<Rightarrow> AttackResult list" where
  "simulationLoop env aenv data originalBuffer [] results = results"
| "simulationLoop env aenv data originalBuffer (kind # kinds) results =
     simulationLoop env aenv data originalBuffer kinds
       (results @ [case simulateAttack env aenv originalBuffer kind of
                     Inr result \<Rightarrow> result
                   | Inl error \<Rightarrow> failedAttack kind data])"

definition runSimulations ::
  "Env \<Rightarrow> AttackEnv \<Rightarrow> AuthenticatedImage \<Rightarrow> string list \<Rightarrow> AttackResult list" where
  "runSimulations env aenv img attackTypes =
     simulationLoop env aenv (imageData img) (fromBase64 aenv (imageData img)) attackTypes []"

section \<open>A concrete store and environment\<close>

text \<open>
  A signature check that throws on the key \<open>broken\<close> and accepts the signature
  \<open>f\<close> under the key \<open>K2\<close>; a decoder that rejects the empty buffer and returns
  any other buffer as its own samples; records that differ in id, key and positions;
  transforms of which the JPEG compression throws.
\<close>

definition exampleNode :: nodeVerify where
  "exampleNode algorithm d k s =
     (if k = ''broken'' then Inl (Error ''bad key'') else Inr (k = ''K2'' \<and> s = ''f''))"

definition exampleEnv :: "AuthenticatedImage list \<Rightarrow> Env" where
  "exampleEnv records =
     \<lparr>sharpRaw = (\<lambda>b. if b = [] then Inl (Error ''Input buffer is empty'') else Inr b),
      getAllAuthenticatedImages = Inr records,
      sha256 = (\<lambda>b. ''h''),
      nodeVerifier = exampleNode\<rparr>"

definition exampleImage :: "nat \<Rightarrow> string \<Rightarrow> jsonPositions \<Rightarrow> AuthenticatedImage" where
  "exampleImage n k ps =
     \<lparr>id' = n, artistName = ''A'', artworkTitle = ''T'', creationDate = ''D'',
      publicKey = k, signatureType = ''RSA-2048'', imageData = ''AQEBAQ=='',
      embedPositions = ps\<rparr>"

definition exampleAttackEnv :: AttackEnv where
  "exampleAttackEnv =
     \<lparr>applyJPEGCompression = (\<lambda>b q. Inl (Error ''Input buffer contains unsupported image format'')),
      applyGaussianNoise = (\<lambda>b s. Inr b),
      applyCropping = (\<lambda>b p. Inr b),
      applyRotation = (\<lambda>b a. Inr b),
      applyScaling = (\<lambda>b f. Inr b),
      calculatePSNR = (\<lambda>a b. 100),
      fromBase64 = (\<lambda>s. [1, 1, 1, 1]),
      toBase64 = (\<lambda>b. ''AQEBAQ=='')\<rparr>"

section \<open>Facts about bytes\<close>

lemma fe_not_one: "(0xFE :: byte) = NOT 1"
  by simp

lemma and_one_cases: "(b :: byte) AND 1 = 0 \<or> b AND 1 = 1"
  by (simp add: and_one_eq mod_2_eq_odd)

lemma set_lsb_upper: "d = 0 \<or> d = 1 \<Longrightarrow> ((b AND 0xFE) OR d) AND 0xFE = b AND (0xFE :: byte)"
  unfolding fe_not_one by (auto simp add: bit_eq_iff bit_simps)

lemma set_lsb_low: "d = 0 \<or> d = 1 \<Longrightarrow> ((b AND 0xFE) OR d) AND 1 = (d :: byte)"
  unfolding fe_not_one by (auto simp add: bit_eq_iff bit_simps)

lemma clear_lsb_idem: "(b AND 0xFE) AND 0xFE = b AND (0xFE :: byte)"
  by (simp add: and.assoc)

lemma drop_bit_clear_lsb: "drop_bit 1 (b AND 0xFE) = drop_bit 1 (b :: byte)"
proof (rule bit_word_eqI)
  fix n
  assume "n < LENGTH(8)"
  have "bit b (Suc n) \<Longrightarrow> Suc n < 8"
    using bit_imp_le_length [of b "Suc n"] by simp
  then show "bit (drop_bit 1 (b AND 0xFE)) n = bit (drop_bit 1 b) n"
    unfolding fe_not_one
    by (auto simp add: bit_drop_bit_eq bit_and_iff bit_not_iff bit_1_iff
        simp del: drop_bit_and drop_bit_of_Suc_0)
qed

lemma same_upper_bits_half:
  assumes "x AND 0xFE = y AND (0xFE :: byte)"
  shows "unat x div 2 = unat y div 2"
proof -
  have "drop_bit 1 x = drop_bit 1 y"
    using assms by (metis drop_bit_clear_lsb)
  then have "unat (drop_bit 1 x) = unat (drop_bit 1 y)"
    by simp
  then show ?thesis
    by (simp add: unat_drop_bit_eq drop_bit_eq_div unat_div)
qed

lemma same_upper_bits_close:
  "x AND 0xFE = y AND (0xFE :: byte) \<Longrightarrow> \<bar>int (unat x) - int (unat y)\<bar> \<le> 1"
  using same_upper_bits_half [of x y] by arith

lemma parseInt_bit:
  "c = CHR ''0'' \<or> c = CHR ''1'' \<Longrightarrow>
     bitOperand (parseInt c) = (if c = CHR ''1'' then 1 else 0)"
  by (auto simp add: parseInt_def bitOperand_def)

lemma toString01_bit:
  "c = CHR ''0'' \<or> c = CHR ''1'' \<Longrightarrow>
     toString01 (if c = CHR ''1'' then 1 else 0) = c"
  by (auto simp add: toString01_def)

section \<open>Facts about embedding, clearing and extraction\<close>

lemma length_bufferSet [simp]: "length (bufferSet data pos v) = length data"
  by (simp add: bufferSet_def)

lemma length_embedStep [simp]: "length (embedStep c pos data) = length data"
  by (simp add: embedStep_def)

lemma length_clearStep [simp]: "length (clearStep pos data) = length data"
  by (simp add: clearStep_def)

lemma length_embedLSB: "length (embedLSB buf bits positions) = length buf"
  by (induction buf bits positions rule: embedLSB.induct) simp_all

lemma embedStep_nth_other:
  "j < length data \<Longrightarrow> int j \<noteq> pos \<Longrightarrow> embedStep c pos data ! j = data ! j"
  by (auto simp add: embedStep_def bufferSet_def)

lemma embedStep_nth_same:
  "inBuffer data pos \<Longrightarrow>
     embedStep c pos data ! nat pos = (data ! nat pos AND 0xFE) OR bitOperand (parseInt c)"
  by (auto simp add: embedStep_def bufferSet_def bufferGet_def toInt_def inBuffer_def)

lemma embedStep_outside: "\<not> inBuffer data pos \<Longrightarrow> embedStep c pos data = data"
  by (auto simp add: embedStep_def bufferSet_def inBuffer_def)

lemma embedLSB_nth_other:
  "j < length buf \<Longrightarrow> int j \<notin> set (take (length bits) positions) \<Longrightarrow>
     embedLSB buf bits positions ! j = buf ! j"
proof (induction buf bits positions rule: embedLSB.induct)
  case (1 modifiedData c bits pos positions)
  then show ?case by (simp add: embedStep_nth_other)
qed simp_all

lemma embedStep_upper:
  assumes "c = CHR ''0'' \<or> c = CHR ''1''" and "j < length data"
  shows "embedStep c pos data ! j AND 0xFE = data ! j AND 0xFE"
proof (cases "int j = pos")
  case True
  then have "inBuffer data pos" using assms(2) by (auto simp add: inBuffer_def)
  then have "embedStep c pos data ! nat pos = (data ! nat pos AND 0xFE) OR bitOperand (parseInt c)"
    by (rule embedStep_nth_same)
  moreover have "nat pos = j" using True by auto
  moreover have "bitOperand (parseInt c) = 0 \<or> bitOperand (parseInt c) = 1"
    using assms(1) by (auto simp add: parseInt_bit)
  ultimately show ?thesis by (auto simp add: set_lsb_upper)
next
  case False
  then show ?thesis using assms(2) by (simp add: embedStep_nth_other)
qed

lemma embedLSB_upper:
  "bitString bits \<Longrightarrow> j < length buf \<Longrightarrow>
     embedLSB buf bits positions ! j AND 0xFE = buf ! j AND 0xFE"
proof (induction buf bits positions rule: embedLSB.induct)
  case (1 modifiedData c bits pos positions)
  then show ?case by (simp add: embedStep_upper bitString_def)
qed simp_all

lemma clearStep_nth:
  "j < length data \<Longrightarrow>
     clearStep pos data ! j = (if int j = pos then data ! j AND 0xFE else data ! j)"
  by (auto simp add: clearStep_def bufferSet_def bufferGet_def toInt_def)

lemma length_fold_clearStep: "length (fold clearStep positions data) = length data"
  by (induction positions arbitrary: data) simp_all

lemma length_clearedCopy: "length (clearedCopy data positions) = length data"
  by (simp add: clearedCopy_def length_fold_clearStep)

lemma fold_clearStep_nth:
  "j < length data \<Longrightarrow>
     fold clearStep positions data ! j =
       (if int j \<in> set positions then data ! j AND 0xFE else data ! j)"
proof (induction positions arbitrary: data)
  case Nil
  then show ?case by simp
next
  case (Cons pos positions)
  then show ?case by (auto simp add: clearStep_nth clear_lsb_idem)
qed

lemma clearedCopy_nth:
  "j < length data \<Longrightarrow>
     clearedCopy data positions ! j =
       (if int j \<in> set positions then data ! j AND 0xFE else data ! j)"
  by (simp add: clearedCopy_def fold_clearStep_nth)

lemma clearedCopy_embedLSB:
  assumes "bitString bits"
  shows "clearedCopy (embedLSB buf bits positions) positions = clearedCopy buf positions"
proof (rule nth_equalityI)
  show "length (clearedCopy (embedLSB buf bits positions) positions) =
        length (clearedCopy buf positions)"
    by (simp add: length_clearedCopy length_embedLSB)
next
  fix j
  assume "j < length (clearedCopy (embedLSB buf bits positions) positions)"
  then have j: "j < length buf" by (simp add: length_clearedCopy length_embedLSB)
  show "clearedCopy (embedLSB buf bits positions) positions ! j = clearedCopy buf positions ! j"
  proof (cases "int j \<in> set positions")
    case True
    then show ?thesis
      using j assms by (simp add: clearedCopy_nth length_embedLSB embedLSB_upper)
  next
    case False
    then have "int j \<notin> set (take (length bits) positions)"
      by (auto dest: in_set_takeD)
    then show ?thesis
      using j False by (simp add: clearedCopy_nth length_embedLSB embedLSB_nth_other)
  qed
qed

lemma fold_extractStep:
  "fold (extractStep pixelData) positions acc =
     acc @ map (readBit pixelData) (filter (\<lambda>p. p < int (length pixelData)) positions)"
  by (induction positions arbitrary: acc) (simp_all add: extractStep_def readBit_def)

lemma extractLSB_closed:
  "extractLSB pixelData positions =
     map (readBit pixelData) (filter (\<lambda>p. p < int (length pixelData)) positions)"
  by (simp add: extractLSB_def fold_extractStep)


lemma filter_all: "\<forall>x\<in>set xs. P x \<Longrightarrow> filter P xs = xs"
  by (induction xs) simp_all

lemma embedLSB_roundtrip_nth:
  assumes "bitString bits"
    and "distinct (take (length bits) positions)"
    and "\<forall>p\<in>set (take (length bits) positions). inBuffer buf p"
    and "i < length bits" and "i < length positions"
  shows "readBit (embedLSB buf bits positions) (positions ! i) = bits ! i"
  using assms
proof (induction buf bits positions arbitrary: i rule: embedLSB.induct)
  case (1 modifiedData c bits pos positions)
  have c: "c = CHR ''0'' \<or> c = CHR ''1''" and bs: "bitString bits"
    using "1.prems"(1) by (simp_all add: bitString_def)
  have inb: "inBuffer modifiedData pos" using "1.prems"(3) by simp
  show ?case
  proof (cases i)
    case 0
    have notin: "int (nat pos) \<notin> set (take (length bits) positions)"
      using "1.prems"(2) inb by (simp add: inBuffer_def)
    have lt: "nat pos < length (embedStep c pos modifiedData)"
      using inb by (auto simp add: inBuffer_def)
    have "embedLSB (embedStep c pos modifiedData) bits positions ! nat pos =
          embedStep c pos modifiedData ! nat pos"
      using lt notin by (rule embedLSB_nth_other)
    also have "\<dots> = (modifiedData ! nat pos AND 0xFE) OR bitOperand (parseInt c)"
      using inb by (rule embedStep_nth_same)
    finally have v: "embedLSB modifiedData (c # bits) (pos # positions) ! nat pos =
          (modifiedData ! nat pos AND 0xFE) OR (if c = CHR ''1'' then 1 else 0)"
      using c by (simp add: parseInt_bit)
    have "inBuffer (embedLSB modifiedData (c # bits) (pos # positions)) pos"
      using inb by (simp add: inBuffer_def length_embedLSB)
    then have "readBit (embedLSB modifiedData (c # bits) (pos # positions)) pos =
      toString01 (embedLSB modifiedData (c # bits) (pos # positions) ! nat pos AND 1)"
      by (simp add: readBit_def bufferGet_def toInt_def inBuffer_def)
    also have "\<dots> = toString01 (if c = CHR ''1'' then 1 else 0)"
      unfolding v using c by (auto simp add: set_lsb_low)
    also have "\<dots> = c" using c by (rule toString01_bit)
    finally show ?thesis using 0 by simp
  next
    case (Suc k)
    have "readBit (embedLSB (embedStep c pos modifiedData) bits positions) (positions ! k) = bits ! k"
    proof (rule "1.IH")
      show "bitString bits" by (rule bs)
      show "distinct (take (length bits) positions)" using "1.prems"(2) by simp
      show "\<forall>p\<in>set (take (length bits) positions). inBuffer (embedStep c pos modifiedData) p"
        using "1.prems"(3) by (simp add: inBuffer_def)
      show "k < length bits" using "1.prems"(4) Suc by simp
      show "k < length positions" using "1.prems"(5) Suc by simp
    qed
    then show ?thesis using Suc by simp
  qed
qed simp_all

lemma extractLSB_prefix:
  assumes "n \<le> length positions"
    and "\<forall>p\<in>set (take n positions). p < int (length data)"
  shows "take n (extractLSB data positions) = map (readBit data) (take n positions)"
proof -
  let ?P = "\<lambda>p. p < int (length data)"
  have "filter ?P positions = filter ?P (take n positions) @ filter ?P (drop n positions)"
    by (metis append_take_drop_id filter_append)
  also have "filter ?P (take n positions) = take n positions"
    using assms(2) by (rule filter_all)
  finally have "extractLSB data positions =
      map (readBit data) (take n positions) @ map (readBit data) (filter ?P (drop n positions))"
    by (simp add: extractLSB_closed)
  then show ?thesis using assms(1) by simp
qed

lemma embedLSB_skips:
  "embedLSB buf bits positions =
     embedLSB buf (map fst (filter (\<lambda>(c, p). inBuffer buf p) (zip bits positions)))
                  (map snd (filter (\<lambda>(c, p). inBuffer buf p) (zip bits positions)))"
proof (induction buf bits positions rule: embedLSB.induct)
  case (1 modifiedData c bits pos positions)
  have same: "inBuffer (embedStep c pos modifiedData) = inBuffer modifiedData"
    by (simp add: inBuffer_def fun_eq_iff)
  show ?case
  proof (cases "inBuffer modifiedData pos")
    case True
    then show ?thesis using "1.IH" by (simp add: same)
  next
    case False
    then show ?thesis using "1.IH" by (simp add: embedStep_outside)
  qed
qed simp_all

lemma readBit_lsb:
  "inBuffer data pos \<Longrightarrow>
     readBit data pos = (if bit (data ! nat pos) 0 then CHR ''1'' else CHR ''0'')"
  by (auto simp add: readBit_def bufferGet_def toInt_def toString01_def inBuffer_def
      and_one_eq mod_2_eq_odd bit_0)

lemma readBit_below:
  "pos < int (length data) \<Longrightarrow>
     readBit data pos = (if 0 \<le> pos \<and> bit (data ! nat pos) 0 then CHR ''1'' else CHR ''0'')"
  by (auto simp add: readBit_def bufferGet_def toInt_def toString01_def
      and_one_eq mod_2_eq_odd bit_0)

lemma readBit_filter_below:
  "map (readBit data) (filter (\<lambda>p. p < int (length data)) positions) =
   map (\<lambda>p. if 0 \<le> p \<and> bit (data ! nat p) 0 then CHR ''1'' else CHR ''0'')
       (filter (\<lambda>p. p < int (length data)) positions)"
  by (rule map_cong) (simp_all add: readBit_below)

lemma length_filter_all: "(length (filter P xs) = length xs) = (\<forall>x\<in>set xs. P x)"
  by (metis filter_id_conv length_filter_le filter_True length_filter_less not_less_iff_gr_or_eq)

text \<open>The equations that evaluate the codecs on a concrete buffer.\<close>

lemmas codec_eval =
  embedStep_def extractLSB_def extractStep_def clearedCopy_def clearStep_def
  computeImageHash_def bufferSet_def bufferGet_def toInt_def parseInt_def bitOperand_def
  toString01_def inBuffer_def bitString_def

section \<open>The embedding round trip\<close>

text \<open>
  Claim C1, as the code has it. When the bits are a bit string and the positions that
  receive a bit (the first \<open>min (length bits) (length positions)\<close> of them) are
  pairwise distinct and address bytes of the buffer, extraction after embedding begins
  with the embedded bits. For every buffer, every string and every sequence of
  positions, with no condition on them, every byte at an index that is not listed in
  the positions is left as it was.
\<close>

theorem embedLSB_extractLSB_roundtrip:
  "(bitString bits
      \<and> distinct (take (length bits) positions)
      \<and> (\<forall>p\<in>set (take (length bits) positions). inBuffer buf p) \<longrightarrow>
    take (min (length bits) (length positions))
      (extractLSB (embedLSB buf bits positions) positions) =
    take (min (length bits) (length positions)) bits)
   \<and> (\<forall>j<length buf. int j \<notin> set positions \<longrightarrow>
         embedLSB buf bits positions ! j = buf ! j)"
proof (intro conjI impI)
  assume a: "bitString bits
      \<and> distinct (take (length bits) positions)
      \<and> (\<forall>p\<in>set (take (length bits) positions). inBuffer buf p)"
  let ?n = "min (length bits) (length positions)"
  let ?stego = "embedLSB buf bits positions"
  have tk: "take ?n positions = take (length bits) positions"
    by (simp add: min_def)
  have "\<forall>p\<in>set (take ?n positions). p < int (length ?stego)"
    using a unfolding tk by (simp add: inBuffer_def length_embedLSB)
  then have ex: "take ?n (extractLSB ?stego positions) = map (readBit ?stego) (take ?n positions)"
    by (intro extractLSB_prefix) simp_all
  show "take ?n (extractLSB ?stego positions) = take ?n bits"
    unfolding ex
  proof (rule nth_equalityI)
    show "length (map (readBit ?stego) (take ?n positions)) = length (take ?n bits)"
      by simp
  next
    fix i
    assume "i < length (map (readBit ?stego) (take ?n positions))"
    then have i: "i < length bits" "i < length positions" by simp_all
    then have "readBit ?stego (positions ! i) = bits ! i"
      using a by (intro embedLSB_roundtrip_nth) simp_all
    then show "map (readBit ?stego) (take ?n positions) ! i = take ?n bits ! i"
      using i by simp
  qed
next
  show "\<forall>j<length buf. int j \<notin> set positions \<longrightarrow> embedLSB buf bits positions ! j = buf ! j"
    by (auto intro!: embedLSB_nth_other dest: in_set_takeD)
qed

text \<open>
  The round trip at a three-byte buffer, two bits and three positions; and a byte left
  alone by an embedding with a repeated position, a position beyond the buffer and a
  character that is no bit.
\<close>

theorem embedLSB_extractLSB_roundtrip_witness:
  "bitString ''10''
   \<and> distinct (take (length ''10'') [2, 0, 1 :: int])
   \<and> inBuffer [0xFF, 0x10, 0x06] 2 \<and> inBuffer [0xFF, 0x10, 0x06] 0
   \<and> take 2 (extractLSB (embedLSB [0xFF, 0x10, 0x06] ''10'' [2, 0, 1]) [2, 0, 1]) = ''10''
   \<and> int 1 \<notin> set [0, 0, 7 :: int]
   \<and> embedLSB [0x04, 0x33] ''01x'' [0, 0, 7] ! 1 = 0x33"
proof -
  have b: "bitString ''10''"
    by (simp add: bitString_def)
  have d: "distinct (take (length ''10'') [2, 0, 1 :: int])"
    by simp
  have r: "\<forall>p\<in>set (take (length ''10'') [2, 0, 1 :: int]). inBuffer [0xFF, 0x10, 0x06] p"
    by (simp add: inBuffer_def)
  have "take 2 (extractLSB (embedLSB [0xFF, 0x10, 0x06] ''10'' [2, 0, 1]) [2, 0, 1]) = ''10''"
    using embedLSB_extractLSB_roundtrip [of "''10''" "[2, 0, 1]" "[0xFF, 0x10, 0x06]", THEN conjunct1] b d r
    by (simp add: codec_eval)
  moreover have n: "int 1 \<notin> set [0, 0, 7 :: int]"
    by simp
  moreover have "embedLSB [0x04, 0x33] ''01x'' [0, 0, 7] ! 1 = 0x33"
    using embedLSB_extractLSB_roundtrip [of "''01x''" "[0, 0, 7]" "[0x04, 0x33]", THEN conjunct2, rule_format, of 1] n
    by (simp add: codec_eval)
  ultimately show ?thesis
    using b d by (simp add: inBuffer_def)
qed

text \<open>
  The claim as it is written fails for a position listed twice and for a position
  beyond the buffer: with one byte, the bits \<open>01\<close> and the positions \<open>0, 0\<close> the
  extraction reads \<open>11\<close>; with the positions \<open>5, 0\<close> it reads the single bit \<open>1\<close>.
\<close>

theorem embedLSB_extractLSB_roundtrip_counterexample:
  "bitString ''01''
   \<and> take (min (length ''01'') (length [0, 0 :: int]))
         (extractLSB (embedLSB [0] ''01'' [0, 0]) [0, 0])
       \<noteq> take (min (length ''01'') (length [0, 0 :: int])) ''01''
   \<and> take (min (length ''01'') (length [5, 0 :: int]))
         (extractLSB (embedLSB [0] ''01'' [5, 0]) [5, 0])
       \<noteq> take (min (length ''01'') (length [5, 0 :: int])) ''01''"
  by (simp add: bitString_def extractLSB_def extractStep_def embedStep_def bufferSet_def
      bufferGet_def toInt_def parseInt_def bitOperand_def toString01_def)

section \<open>The content hash under embedding\<close>

text \<open>
  Claim C2. For every buffer, every bit string and every sequence of positions, the
  hash of the buffer after embedding, taken over the same positions, is the hash of the
  buffer before embedding. It holds for every digest function, the identity included,
  so the two cleared copies are the same buffer.
\<close>

theorem computeImageHash_embedLSB:
  assumes "bitString bits"
  shows "computeImageHash digest (embedLSB buf bits positions) positions =
         computeImageHash digest buf positions"
  using assms by (simp add: computeImageHash_def clearedCopy_embedLSB)

theorem computeImageHash_embedLSB_witness:
  "bitString ''110''
   \<and> computeImageHash (map (\<lambda>b. char_of (unat b))) (embedLSB [0x41, 0x42, 0x43] ''110'' [1, 1, 7]) [1, 1, 7]
       = computeImageHash (map (\<lambda>b. char_of (unat b))) [0x41, 0x42, 0x43] [1, 1, 7]
   \<and> embedLSB [0x41, 0x42, 0x43] ''110'' [1, 1, 7] = [0x41, 0x43, 0x43]"
proof -
  have b: "bitString ''110''"
    by (simp add: bitString_def)
  have "embedLSB [0x41, 0x42, 0x43] ''110'' [1, 1, 7] = [0x41, 0x43, 0x43]"
    by (simp add: embedStep_def bufferSet_def bufferGet_def toInt_def parseInt_def
        bitOperand_def)
  then show ?thesis
    using b computeImageHash_embedLSB [OF b, of "map (\<lambda>b. char_of (unat b))"
        "[0x41, 0x42, 0x43]" "[1, 1, 7]"]
    by simp
qed

section \<open>Extraction\<close>

text \<open>
  Claim C5, as the code has it. \<open>extractLSB\<close> never fails. It returns exactly one
  character for each position that is below the length of the samples, in the order of
  the positions, and nothing for the other positions: the character for a position
  that addresses a byte is the least significant bit of that byte, and for a negative
  position, where the read is \<open>undefined\<close>, it is \<open>0\<close>. So the length is the
  number of positions exactly when every position is below the length of the samples;
  and when every position addresses a byte, the i-th character is the least
  significant bit of the sample at the i-th position.
\<close>

theorem extractLSB_result:
  "extractLSB samples positions =
     map (\<lambda>p. if 0 \<le> p \<and> bit (samples ! nat p) 0 then CHR ''1'' else CHR ''0'')
         (filter (\<lambda>p. p < int (length samples)) positions)
   \<and> (length (extractLSB samples positions) = length positions) =
       (\<forall>p\<in>set positions. p < int (length samples))
   \<and> ((\<forall>p\<in>set positions. inBuffer samples p) \<longrightarrow>
        length (extractLSB samples positions) = length positions
        \<and> (\<forall>i<length positions.
              extractLSB samples positions ! i =
                (if bit (samples ! nat (positions ! i)) 0 then CHR ''1'' else CHR ''0'')))"
proof (intro conjI impI)
  show "extractLSB samples positions =
     map (\<lambda>p. if 0 \<le> p \<and> bit (samples ! nat p) 0 then CHR ''1'' else CHR ''0'')
         (filter (\<lambda>p. p < int (length samples)) positions)"
    by (simp only: extractLSB_closed readBit_filter_below)
next
  show "(length (extractLSB samples positions) = length positions) =
       (\<forall>p\<in>set positions. p < int (length samples))"
    by (simp add: extractLSB_closed length_filter_all)
next
  assume a: "\<forall>p\<in>set positions. inBuffer samples p"
  then have f: "filter (\<lambda>p. p < int (length samples)) positions = positions"
    by (intro filter_all) (simp add: inBuffer_def)
  show "length (extractLSB samples positions) = length positions"
    by (simp add: extractLSB_closed f)
  show "\<forall>i<length positions.
              extractLSB samples positions ! i =
                (if bit (samples ! nat (positions ! i)) 0 then CHR ''1'' else CHR ''0'')"
    using a by (simp add: extractLSB_closed f readBit_lsb)
qed

theorem extractLSB_result_witness:
  "inBuffer [0x03, 0x04] 1 \<and> inBuffer [0x03, 0x04] 0
   \<and> length (extractLSB [0x03, 0x04] [1, 0, 1]) = 3
   \<and> extractLSB [0x03, 0x04] [1, 0, 1] ! 0 = CHR ''0''
   \<and> extractLSB [0x03, 0x04] [1, 0, 1] ! 1 = CHR ''1''
   \<and> extractLSB [0x03, 0x04] [1, 5, 0, -1] = ''010''"
proof -
  have r: "\<forall>p\<in>set [1, 0, 1 :: int]. inBuffer [0x03, 0x04] p"
    by (simp add: inBuffer_def)
  note t = extractLSB_result [of "[0x03, 0x04]" "[1, 0, 1]"]
  have a: "length (extractLSB [0x03, 0x04] [1, 0, 1]) = length [1, 0, 1 :: int]
     \<and> (\<forall>i<length [1, 0, 1 :: int].
              extractLSB [0x03, 0x04] [1, 0, 1] ! i =
                (if bit ([0x03, 0x04 :: byte] ! nat ([1, 0, 1] ! i)) 0 then CHR ''1'' else CHR ''0''))"
    using t [THEN conjunct2, THEN conjunct2] r by blast
  then have "extractLSB [0x03, 0x04] [1, 0, 1] ! 0 = CHR ''0''"
    and "extractLSB [0x03, 0x04] [1, 0, 1] ! 1 = CHR ''1''"
    by (simp_all add: bit_0)
  moreover have "extractLSB [0x03, 0x04] [1, 5, 0, -1] = ''010''"
    using extractLSB_result [of "[0x03, 0x04]" "[1, 5, 0, -1]", THEN conjunct1]
    by (simp add: bit_0)
  ultimately show ?thesis
    using a by (simp add: inBuffer_def)
qed

text \<open>
  The claim as it is written fails for a position at or beyond the end of the samples:
  nothing is appended for it, so the result is shorter than the positions.
\<close>

theorem extractLSB_result_counterexample:
  "length (extractLSB [0x01] [0, 1]) \<noteq> length [0, 1 :: int]"
  by (simp add: extractLSB_def extractStep_def bufferGet_def toInt_def toString01_def)

section \<open>What embedding changes\<close>

text \<open>
  Claim C10. For every buffer, every bit string and every sequence of positions,
  \<open>embedLSB\<close> returns a buffer of the same length; every byte keeps its upper seven
  bits, so its value moves by at most 1; and the positions that address no byte of the
  buffer are skipped: dropping them, each with its bit, gives the same result.
\<close>

theorem embedLSB_only_lsb:
  assumes "bitString bits"
  shows "length (embedLSB buf bits positions) = length buf
     \<and> (\<forall>j<length buf. embedLSB buf bits positions ! j AND 0xFE = buf ! j AND 0xFE)
     \<and> (\<forall>j<length buf.
           \<bar>int (unat (embedLSB buf bits positions ! j)) - int (unat (buf ! j))\<bar> \<le> 1)
     \<and> embedLSB buf bits positions =
         embedLSB buf (map fst (filter (\<lambda>(c, p). inBuffer buf p) (zip bits positions)))
                      (map snd (filter (\<lambda>(c, p). inBuffer buf p) (zip bits positions)))"
proof (intro conjI allI impI)
  show "length (embedLSB buf bits positions) = length buf"
    by (rule length_embedLSB)
next
  fix j
  assume "j < length buf"
  then show "embedLSB buf bits positions ! j AND 0xFE = buf ! j AND 0xFE"
    using assms by (rule embedLSB_upper [rotated])
next
  fix j
  assume "j < length buf"
  then have "embedLSB buf bits positions ! j AND 0xFE = buf ! j AND 0xFE"
    using assms by (rule embedLSB_upper [rotated])
  then show "\<bar>int (unat (embedLSB buf bits positions ! j)) - int (unat (buf ! j))\<bar> \<le> 1"
    by (rule same_upper_bits_close)
next
  show "embedLSB buf bits positions =
         embedLSB buf (map fst (filter (\<lambda>(c, p). inBuffer buf p) (zip bits positions)))
                      (map snd (filter (\<lambda>(c, p). inBuffer buf p) (zip bits positions)))"
    by (rule embedLSB_skips)
qed

theorem embedLSB_only_lsb_witness:
  "bitString ''011''
   \<and> length (embedLSB [0xFF, 0x10] ''011'' [0, 7, -1]) = 2
   \<and> embedLSB [0xFF, 0x10] ''011'' [0, 7, -1] ! 0 AND 0xFE = 0xFF AND 0xFE
   \<and> \<bar>int (unat (embedLSB [0xFF, 0x10] ''011'' [0, 7, -1] ! 0)) - int (unat (0xFF :: byte))\<bar> \<le> 1
   \<and> embedLSB [0xFF, 0x10] ''011'' [0, 7, -1] = embedLSB [0xFF, 0x10] ''0'' [0]"
proof -
  have b: "bitString ''011''"
    by (simp add: bitString_def)
  have z: "filter (\<lambda>(c, p). inBuffer [0xFF, 0x10] p) (zip ''011'' [0, 7, -1]) = [(CHR ''0'', 0)]"
    by (simp add: inBuffer_def)
  show ?thesis
    using b embedLSB_only_lsb [OF b, of "[0xFF, 0x10]" "[0, 7, -1]"]
    unfolding z by (simp add: codec_eval)
qed

text \<open>
  The bits are taken with \<open>parseInt\<close>, so a digit other than 0 and 1 reaches the
  upper bits of the byte: the restriction to bit strings is needed.
\<close>

lemma embedLSB_other_digit: "embedLSB [0] ''2'' [0] = [2]"
  by (simp add: codec_eval)

section \<open>Embed positions\<close>

text \<open>
  The closed form of the loop: when every \<open>i * step\<close> with \<open>i < 2048\<close> is below
  \<open>totalPixels\<close>, all 2048 positions are pushed. That is the case from 2048 samples
  on, where the step is at least 1 and the positions are strictly increasing, and also
  for 1 to 2047 samples, where the step is 0.
\<close>

lemma generateLoop_full:
  "(\<forall>k<2048. k * step < totalPixels) \<Longrightarrow> i \<le> 2048 \<Longrightarrow>
     generateLoop totalPixels step i acc = acc @ map (\<lambda>k. int (k * step)) [i..<2048]"
proof (induction totalPixels step i acc rule: generateLoop.induct)
  case (1 t s i ps)
  show ?case
  proof (cases "i < 2048")
    case True
    with "1.prems" have c: "i < 2048 \<and> i * s < t" by simp
    have "generateLoop t s i ps = generateLoop t s (i + 1) (ps @ [int (i * s)])"
      using c by (subst generateLoop.simps) simp
    also have "\<dots> = (ps @ [int (i * s)]) @ map (\<lambda>k. int (k * s)) [i + 1..<2048]"
      using "1.IH" [OF c] "1.prems" True by simp
    also have "\<dots> = ps @ map (\<lambda>k. int (k * s)) [i..<2048]"
      using True by (simp add: upt_conv_Cons)
    finally show ?thesis .
  next
    case False
    then show ?thesis using "1.prems" by (subst generateLoop.simps) simp
  qed
qed

lemma generateLoop_stop:
  "\<not> (i < 2048 \<and> i * step < totalPixels) \<Longrightarrow> generateLoop totalPixels step i acc = acc"
  by (subst generateLoop.simps) simp

lemma generateEmbedPositions_zero: "generateEmbedPositions 0 = []"
proof -
  have "\<not> ((0::nat) < 2048 \<and> 0 * (0 div 2048) < (0::nat))" by simp
  then have "generateLoop 0 (0 div 2048) 0 [] = []" by (rule generateLoop_stop)
  then show ?thesis by (simp only: generateEmbedPositions_def)
qed

lemma generateEmbedPositions_full:
  assumes "\<forall>k<2048. k * (totalPixels div 2048) < totalPixels"
  shows "generateEmbedPositions totalPixels =
           map (\<lambda>k. int (k * (totalPixels div 2048))) [0..<2048]"
proof -
  have "generateLoop totalPixels (totalPixels div 2048) 0 [] =
        [] @ map (\<lambda>k. int (k * (totalPixels div 2048))) [0..<2048]"
    using assms by (rule generateLoop_full) simp
  then show ?thesis by (simp only: generateEmbedPositions_def append_Nil)
qed

lemma generateEmbedPositions_small:
  assumes "0 < totalPixels" and "totalPixels < 2048"
  shows "generateEmbedPositions totalPixels = replicate 2048 0"
proof -
  have z: "totalPixels div 2048 = 0" using assms(2) by simp
  have "\<forall>k<2048. k * (totalPixels div 2048) < totalPixels"
    using assms(1) by (simp only: z mult_0_right) simp
  then have "generateEmbedPositions totalPixels =
      map (\<lambda>k. int (k * (totalPixels div 2048))) [0..<2048]"
    by (rule generateEmbedPositions_full)
  also have "\<dots> = map (\<lambda>k. 0) [0..<2048]"
    by (simp only: z mult_0_right semiring_1_class.of_nat_0)
  also have "\<dots> = replicate (length [0..<(2048::nat)]) 0"
    by (rule map_replicate_const)
  also have "\<dots> = replicate 2048 0"
    by (simp only: length_upt diff_zero)
  finally show ?thesis .
qed

lemma generateEmbedPositions_large:
  assumes "2048 \<le> totalPixels"
  shows "generateEmbedPositions totalPixels =
           map (\<lambda>k. int (k * (totalPixels div 2048))) [0..<2048]"
proof (rule generateEmbedPositions_full, intro allI impI)
  fix k :: nat
  assume "k < 2048"
  have s: "2048 * (totalPixels div 2048) \<le> totalPixels" by simp
  have p: "0 < totalPixels div 2048" using assms by (simp add: div_greater_zero_iff)
  have "k * (totalPixels div 2048) < 2048 * (totalPixels div 2048)"
    using p \<open>k < 2048\<close> by simp
  then show "k * (totalPixels div 2048) < totalPixels" using s by linarith
qed

lemma generateEmbedPositions_large_properties:
  assumes "2048 \<le> totalPixels"
  shows "sorted_wrt (<) (generateEmbedPositions totalPixels)
       \<and> (\<forall>p\<in>set (generateEmbedPositions totalPixels). 0 \<le> p \<and> p < int totalPixels)
       \<and> length (generateEmbedPositions totalPixels) = 2048"
proof -
  let ?s = "totalPixels div 2048"
  have p: "0 < ?s" using assms by (simp add: div_greater_zero_iff)
  have s: "2048 * ?s \<le> totalPixels" by simp
  have f: "generateEmbedPositions totalPixels = map (\<lambda>k. int (k * ?s)) [0..<2048]"
    using assms by (rule generateEmbedPositions_large)
  have "sorted_wrt (<) (map (\<lambda>k. int (k * ?s)) [0..<2048])"
    using p by (simp add: sorted_wrt_map sorted_wrt_iff_nth_less)
  moreover have "\<forall>q\<in>set (map (\<lambda>k. int (k * ?s)) [0..<2048]). 0 \<le> q \<and> q < int totalPixels"
  proof
    fix q assume "q \<in> set (map (\<lambda>k. int (k * ?s)) [0..<2048])"
    then obtain k where k: "k < 2048" "q = int (k * ?s)" by auto
    then have "k * ?s < 2048 * ?s" using p by simp
    then have "k * ?s < totalPixels" using s by linarith
    then have "int (k * ?s) < int totalPixels" by (simp only: of_nat_less_iff)
    then show "0 \<le> q \<and> q < int totalPixels" unfolding k(2) by simp
  qed
  moreover have "length (map (\<lambda>k. int (k * ?s)) [0..<2048]) = 2048"
    by (simp only: length_map length_upt diff_zero)
  ultimately show ?thesis unfolding f by blast
qed

lemma not_sorted_replicate: "\<not> sorted_wrt (<) (replicate 2048 (0::int))"
proof -
  have "\<not> (replicate 2048 (0::int) ! 0 < replicate 2048 (0::int) ! 1)"
    by simp
  moreover have "(0::nat) < 1" and "(1::nat) < length (replicate 2048 (0::int))"
    by simp_all
  ultimately show ?thesis
    unfolding sorted_wrt_iff_nth_less by blast
qed

text \<open>
  Claim C4 at an image of 16 by 16 pixels, 1024 samples: \<open>Math.floor(1024 / 2048)\<close>
  is 0, every \<open>i * 0\<close> is below 1024, and the result is the position 0 repeated 2048
  times, which is not strictly increasing.
\<close>

theorem generateEmbedPositions_small_image:
  "generateEmbedPositions 1024 = replicate 2048 0
   \<and> \<not> sorted_wrt (<) (generateEmbedPositions 1024)"
  using generateEmbedPositions_small [of 1024] not_sorted_replicate by simp

section \<open>Signature verification never throws\<close>

lemma verify_value:
  "verify node d s k t =
     Inr (case verifyBody node d s k t of Inl e \<Rightarrow> False | Inr b \<Rightarrow> b)"
  by (simp add: verify_def split: sum.splits)

text \<open>
  Claim C6. For every payload, signature, public key and scheme, and whatever Node's
  signature check does, \<open>verify\<close> returns a boolean. When the body of its \<open>try\<close>
  throws, because the scheme is unknown or because Node rejects the key or the
  signature with an exception, the result is \<open>false\<close>.
\<close>

theorem verify_never_throws:
  "(\<exists>b. verify node d s k t = Inr b)
   \<and> (isl (verifyBody node d s k t) \<longrightarrow> verify node d s k t = Inr False)
   \<and> (isl (getSigningAlgorithm t) \<longrightarrow> verify node d s k t = Inr False)
   \<and> (\<forall>algorithm. getSigningAlgorithm t = Inr algorithm \<and> isl (node algorithm d k s) \<longrightarrow>
         verify node d s k t = Inr False)"
  by (auto simp add: verify_value verifyBody_def isl_def split: sum.splits)

theorem verify_never_throws_witness:
  "isl (getSigningAlgorithm ''DSA'')
   \<and> verify (\<lambda>algorithm d k s. Inr True) ''h'' ''ab'' ''key'' ''DSA'' = Inr False
   \<and> getSigningAlgorithm ''RSA-2048'' = Inr ''sha256''
   \<and> isl ((\<lambda>algorithm d k s. if k = ''key'' then Inl (Error ''bad key'') else Inr True)
             ''sha256'' ''h'' ''key'' ''ab'')
   \<and> verify (\<lambda>algorithm d k s. if k = ''key'' then Inl (Error ''bad key'') else Inr True)
        ''h'' ''ab'' ''key'' ''RSA-2048'' = Inr False"
proof -
  have a: "isl (getSigningAlgorithm ''DSA'')"
    by (simp add: getSigningAlgorithm_def)
  have b: "getSigningAlgorithm ''RSA-2048'' = Inr ''sha256''"
    by (simp add: getSigningAlgorithm_def)
  let ?node = "\<lambda>algorithm d k s. if k = ''key'' then Inl (Error ''bad key'') else Inr True"
  have c: "isl (?node ''sha256'' ''h'' ''key'' ''ab'')"
    by simp
  have "verify (\<lambda>algorithm d k s. Inr True) ''h'' ''ab'' ''key'' ''DSA'' = Inr False"
    using verify_never_throws [of "\<lambda>algorithm d k s. Inr True" "''h''" "''ab''" "''key''" "''DSA''"] a
    by blast
  moreover have "verify ?node ''h'' ''ab'' ''key'' ''RSA-2048'' = Inr False"
    using verify_never_throws [of ?node "''h''" "''ab''" "''key''" "''RSA-2048''"] b c
    by blast
  ultimately show ?thesis using a b c by blast
qed

section \<open>The scan of the records\<close>

lemma extractionLoop_closed:
  "extractionLoop pixelData images acc = acc @ concat (map (attemptsOf pixelData) images)"
  by (induction images arbitrary: acc)
     (simp_all add: attemptsOf_def split: sum.splits option.splits)

lemma verifyLoop_hit:
  "attemptVerifies env pixelData a \<Longrightarrow> verifyLoop env pixelData (a # as) = Inr (validResult a)"
  by (simp add: attemptVerifies_def)

lemma verifyLoop_miss:
  "\<not> attemptVerifies env pixelData a \<Longrightarrow>
     verifyLoop env pixelData (a # as) = verifyLoop env pixelData as"
  by (auto simp add: attemptVerifies_def verify_value split: sum.splits)

lemma verifyLoop_skip_prefix:
  "\<forall>a\<in>set as1. \<not> attemptVerifies env pixelData a \<Longrightarrow>
     verifyLoop env pixelData (as1 @ as2) = verifyLoop env pixelData as2"
  by (induction as1) (simp_all add: verifyLoop_miss del: verifyLoop.simps(2))



lemma verifyLoop_total: "\<exists>r. verifyLoop env pixelData as = Inr r"
  by (induction as) (auto simp add: verify_value split: sum.splits)


lemma attemptsOf_verifies:
  "(\<exists>a\<in>set (attemptsOf pixelData img). attemptVerifies env pixelData a) =
     recordVerifies env pixelData img"
  by (cases "embedPositions img")
     (simp_all add: attemptsOf_def extractionBody_def attemptVerifies_def recordVerifies_def Let_def)

lemma attemptsOf_all_fail:
  "\<forall>r\<in>set records. \<not> recordVerifies env pixelData r \<Longrightarrow>
     \<forall>a\<in>set (concat (map (attemptsOf pixelData) records)). \<not> attemptVerifies env pixelData a"
  using attemptsOf_verifies by fastforce


lemma readBit_cases: "readBit pixelData pos = CHR ''0'' \<or> readBit pixelData pos = CHR ''1''"
  by (simp add: readBit_def toString01_def)

lemma extractLSB_bitString: "bitString (extractLSB pixelData positions)"
  using readBit_cases by (auto simp add: extractLSB_closed bitString_def list_all_iff)

lemma toDouble_one: "toDouble 1 = 1"
  by code_simp

lemma toDouble_hundred: "toDouble 100 = 100"
  by code_simp

lemma round_hundred: "\<lfloor>(201 :: rat) / 2\<rfloor> = 100"
  by code_simp

lemma calculateIntegrityScore_bitString:
  assumes "bitString bits" and "bits \<noteq> []"
  shows "calculateIntegrityScore bits = Num 100"
proof -
  have "filter (\<lambda>bit. bit = CHR ''0'' \<or> bit = CHR ''1'') bits = bits"
    using assms(1) by (intro filter_all) (simp add: bitString_def list_all_iff)
  moreover have "(of_nat (length bits) :: rat) / of_nat (length bits) = 1"
    using assms(2) by simp
  ultimately show ?thesis
    using assms(2)
    by (simp add: calculateIntegrityScore_def toDouble_one toDouble_hundred round_hundred)
qed

text \<open>
  Off the bit strings the doubles show: 23 valid characters of 40 give 57, where the
  exact quotient 57.5 would round to 58.
\<close>

lemma calculateIntegrityScore_double:
  "calculateIntegrityScore (replicate 23 CHR ''1'' @ replicate 17 CHR ''x'') = Num 57"
  by code_simp

lemma bitsToSignature_nonempty: "bitsToSignature bits \<noteq> [] \<Longrightarrow> bits \<noteq> []"
  by auto

text \<open>With no extracted bit the score is \<open>0 / 0\<close>.\<close>

lemma calculateIntegrityScore_empty: "calculateIntegrityScore [] = NaN"
  by (simp add: calculateIntegrityScore_def)

lemma verifyImage_unfold:
  assumes "sharpRaw env imageBuffer = Inr pixelData"
    and "getAllAuthenticatedImages env = Inr records"
  shows "verifyLoop env pixelData (concat (map (attemptsOf pixelData) records)) =
           Inr (verifyImage env imageBuffer)"
proof -
  obtain r where r: "verifyLoop env pixelData (concat (map (attemptsOf pixelData) records)) = Inr r"
    using verifyLoop_total by blast
  then show ?thesis
    using assms
    by (simp add: verifyImage_def attemptSignatureExtraction_def extractionLoop_closed)
qed

text \<open>The equations that evaluate the services on the concrete store.\<close>

lemmas service_eval =
  verifyImage_def attemptSignatureExtraction_def extractionBody_def verify_def
  verifyBody_def getSigningAlgorithm_def validResult_def noMatchResult_def
  failedResult_def errorMessageOf_def recordVerifies_def recordThrows_def
  parseIntRadix2_def isWhiteSpace_def hexDigit_def toStringRadix16_def
  exampleEnv_def exampleImage_def exampleNode_def

lemma example_bits: "extractLSB [1, 1, 1, 1] [0, 1, 2, 3] = ''1111''"
  by (simp add: codec_eval)

lemma example_signature: "bitsToSignature ''1111'' = ''f''"
  by (simp add: service_eval)

lemma example_score: "calculateIntegrityScore ''1111'' = Num 100"
  by code_simp

text \<open>
  Claim C7. The image decodes, the store returns its records, and Node's check never
  accepts an empty signature. If some record's extracted signature verifies and no
  record before it does, \<open>verifyImage\<close> returns the valid result of that record: its
  id, the signature extracted at its positions, the integrity score 100 and its
  metadata. The records after it play no part.
\<close>

theorem verifyImage_first_match:
  assumes "sharpRaw env imageBuffer = Inr pixelData"
    and "getAllAuthenticatedImages env = Inr (before @ img # after)"
    and "\<forall>r\<in>set before. \<not> recordVerifies env pixelData r"
    and "recordVerifies env pixelData img"
    and "embedPositions img = JsonArray positions"
    and "\<forall>algorithm d k. nodeVerifier env algorithm d k [] \<noteq> Inr True"
  shows "verifyImage env imageBuffer =
           \<lparr>isValid = True, resultImageId = Some (id' img),
            extractedSignature = Some (bitsToSignature (extractLSB pixelData positions)),
            resultIntegrityScore = Num 100,
            resultMethod = ''LSB_extraction'', errorMessage = None,
            imageMetadata = Some \<lparr>metaArtistName = artistName img,
                                   metaArtworkTitle = artworkTitle img,
                                   metaCreationDate = creationDate img\<rparr>\<rparr>"
proof -
  let ?bits = "extractLSB pixelData positions"
  let ?a = "\<lparr>success = True, imageId = id' img, signature = bitsToSignature ?bits,
             attemptPublicKey = publicKey img, attemptSignatureType = signatureType img,
             attemptEmbedPositions = positions,
             integrityScore = calculateIntegrityScore ?bits,
             metadata = \<lparr>metaArtistName = artistName img,
                          metaArtworkTitle = artworkTitle img,
                          metaCreationDate = creationDate img\<rparr>\<rparr>"
  have att: "attemptsOf pixelData img = [?a]"
    using assms(5) by (simp add: attemptsOf_def extractionBody_def Let_def)
  have v: "verify (nodeVerifier env) (computeImageHash (sha256 env) pixelData positions)
             (bitsToSignature ?bits) (publicKey img) (signatureType img) = Inr True"
    using assms(4,5) by (simp add: recordVerifies_def)
  then have hit: "attemptVerifies env pixelData ?a"
    by (simp add: attemptVerifies_def)
  have "bitsToSignature ?bits \<noteq> []"
  proof
    assume e: "bitsToSignature ?bits = []"
    from v have "verifyBody (nodeVerifier env) (computeImageHash (sha256 env) pixelData positions)
             [] (publicKey img) (signatureType img) = Inr True"
      unfolding e by (simp add: verify_value split: sum.splits)
    then show False
      using assms(6) by (auto simp add: verifyBody_def split: sum.splits)
  qed
  then have "?bits \<noteq> []" by (rule bitsToSignature_nonempty)
  then have score: "calculateIntegrityScore ?bits = Num 100"
    using extractLSB_bitString by (intro calculateIntegrityScore_bitString)
  have miss: "\<forall>a\<in>set (concat (map (attemptsOf pixelData) before)). \<not> attemptVerifies env pixelData a"
    using assms(3) by (rule attemptsOf_all_fail)
  have "verifyLoop env pixelData (concat (map (attemptsOf pixelData) (before @ img # after))) =
        verifyLoop env pixelData (?a # concat (map (attemptsOf pixelData) after))"
    using verifyLoop_skip_prefix [OF miss] by (simp add: att del: verifyLoop.simps(2))
  also have "\<dots> = Inr (validResult ?a)"
    using hit by (rule verifyLoop_hit)
  finally have "verifyImage env imageBuffer = validResult ?a"
    using verifyImage_unfold [OF assms(1,2)] by simp
  then show ?thesis
    by (simp add: validResult_def score)
qed

theorem verifyImage_first_match_witness:
  "sharpRaw (exampleEnv [exampleImage 1 ''K1'' (JsonArray [0, 1, 2, 3]),
                         exampleImage 2 ''K2'' (JsonArray [0, 1, 2, 3]),
                         exampleImage 3 ''K2'' (JsonArray [0, 1, 2, 3])]) [1, 1, 1, 1]
     = Inr [1, 1, 1, 1]
   \<and> \<not> recordVerifies (exampleEnv []) [1, 1, 1, 1] (exampleImage 1 ''K1'' (JsonArray [0, 1, 2, 3]))
   \<and> recordVerifies (exampleEnv []) [1, 1, 1, 1] (exampleImage 2 ''K2'' (JsonArray [0, 1, 2, 3]))
   \<and> exampleNode ''sha256'' ''h'' ''K2'' [] \<noteq> Inr True
   \<and> verifyImage (exampleEnv [exampleImage 1 ''K1'' (JsonArray [0, 1, 2, 3]),
                              exampleImage 2 ''K2'' (JsonArray [0, 1, 2, 3]),
                              exampleImage 3 ''K2'' (JsonArray [0, 1, 2, 3])]) [1, 1, 1, 1]
     = \<lparr>isValid = True, resultImageId = Some 2, extractedSignature = Some ''f'',
        resultIntegrityScore = Num 100, resultMethod = ''LSB_extraction'',
        errorMessage = None,
        imageMetadata = Some \<lparr>metaArtistName = ''A'', metaArtworkTitle = ''T'',
                               metaCreationDate = ''D''\<rparr>\<rparr>"
proof -
  let ?i1 = "exampleImage 1 ''K1'' (JsonArray [0, 1, 2, 3])"
  let ?i2 = "exampleImage 2 ''K2'' (JsonArray [0, 1, 2, 3])"
  let ?i3 = "exampleImage 3 ''K2'' (JsonArray [0, 1, 2, 3])"
  let ?env = "exampleEnv [?i1, ?i2, ?i3]"
  have raw: "sharpRaw ?env [1, 1, 1, 1] = Inr [1, 1, 1, 1]"
    by (simp add: exampleEnv_def)
  have store: "getAllAuthenticatedImages ?env = Inr ([?i1] @ ?i2 # [?i3])"
    by (simp add: exampleEnv_def)
  have n1: "\<not> recordVerifies ?env [1, 1, 1, 1] ?i1"
    by (simp add: service_eval example_bits)
  have before: "\<forall>r\<in>set [?i1]. \<not> recordVerifies ?env [1, 1, 1, 1] r"
    using n1 by simp
  have y2: "recordVerifies ?env [1, 1, 1, 1] ?i2"
    by (simp add: service_eval example_bits)
  have pos: "embedPositions ?i2 = JsonArray [0, 1, 2, 3]"
    by (simp add: exampleImage_def)
  have rej: "\<forall>algorithm d k. nodeVerifier ?env algorithm d k [] \<noteq> Inr True"
    by (simp add: exampleEnv_def exampleNode_def)
  have "verifyImage ?env [1, 1, 1, 1] =
          \<lparr>isValid = True, resultImageId = Some 2, extractedSignature = Some ''f'',
           resultIntegrityScore = Num 100, resultMethod = ''LSB_extraction'',
           errorMessage = None,
           imageMetadata = Some \<lparr>metaArtistName = ''A'', metaArtworkTitle = ''T'',
                                  metaCreationDate = ''D''\<rparr>\<rparr>"
    using verifyImage_first_match [OF raw store before y2 pos rej]
    by (simp add: example_bits example_signature exampleImage_def del: bitsToSignature.simps)
  moreover have "\<not> recordVerifies (exampleEnv []) [1, 1, 1, 1] ?i1"
    by (simp add: service_eval example_bits)
  moreover have "recordVerifies (exampleEnv []) [1, 1, 1, 1] ?i2"
    by (simp add: service_eval example_bits)
  moreover have "exampleNode ''sha256'' ''h'' ''K2'' [] \<noteq> Inr True"
    by (simp add: exampleNode_def)
  ultimately show ?thesis using raw by simp
qed



section \<open>Attack simulation\<close>

lemmas attack_eval =
  simulateAttack_def applyAttack_def withParameters_def failedAttack_def
  runSimulations_def exampleAttackEnv_def

lemma simulationLoop_closed:
  "simulationLoop env aenv data original kinds acc =
     acc @ map (\<lambda>kind. case simulateAttack env aenv original kind of
                          Inr result \<Rightarrow> result
                        | Inl error \<Rightarrow> failedAttack kind data) kinds"
  by (induction kinds arbitrary: acc) simp_all

lemma simulateAttack_attackType:
  "simulateAttack env aenv original kind = Inr r \<Longrightarrow> attackType r = kind"
  by (auto simp add: simulateAttack_def Let_def split: sum.splits prod.splits)

lemma simulateAttack_fails:
  "isl (simulateAttack env aenv original kind) = isl (applyAttack aenv original kind)"
  by (auto simp add: simulateAttack_def Let_def split: sum.splits prod.splits)

text \<open>
  Claim C9. \<open>runSimulations\<close> returns one result per requested attack type, in the
  order of the request and each carrying its attack type. Where the transform of an
  attack type throws (an unknown attack type throws as well), the entry is the
  synthetic result with integrity loss 100, PSNR 0 and both flags false; where the
  simulation of an attack type returns, the entry is its result.
\<close>

theorem runSimulations_isolates_failures:
  "length (runSimulations env aenv img attackTypes) = length attackTypes
   \<and> map attackType (runSimulations env aenv img attackTypes) = attackTypes
   \<and> (\<forall>i<length attackTypes.
         isl (applyAttack aenv (fromBase64 aenv (imageData img)) (attackTypes ! i)) \<longrightarrow>
         runSimulations env aenv img attackTypes ! i =
           \<lparr>attackType = attackTypes ! i, parameters = [],
            beforeImageData = imageData img, afterImageData = imageData img,
            verificationPassed = False, integrityLoss = Num 100, psnr = 0,
            extractionSuccessful = False\<rparr>)
   \<and> (\<forall>i<length attackTypes. \<forall>r.
         simulateAttack env aenv (fromBase64 aenv (imageData img)) (attackTypes ! i) = Inr r \<longrightarrow>
         runSimulations env aenv img attackTypes ! i = r)"
proof -
  let ?step = "\<lambda>kind. case simulateAttack env aenv (fromBase64 aenv (imageData img)) kind of
                          Inr result \<Rightarrow> result
                        | Inl error \<Rightarrow> failedAttack kind (imageData img)"
  have run: "runSimulations env aenv img attackTypes = map ?step attackTypes"
    by (simp add: runSimulations_def simulationLoop_closed)
  have ty: "attackType (?step kind) = kind" for kind
    by (auto simp add: failedAttack_def simulateAttack_attackType split: sum.splits)
  have "map attackType (map ?step attackTypes) = attackTypes"
    by (induction attackTypes) (simp_all add: ty)
  moreover have "?step kind = failedAttack kind (imageData img)"
    if "isl (applyAttack aenv (fromBase64 aenv (imageData img)) kind)" for kind
    using that simulateAttack_fails [of env aenv "fromBase64 aenv (imageData img)" kind]
    by (auto simp add: isl_def)
  moreover have "?step kind = r"
    if "simulateAttack env aenv (fromBase64 aenv (imageData img)) kind = Inr r" for kind r
    using that by simp
  ultimately show ?thesis
    unfolding run by (simp add: failedAttack_def)
qed

theorem runSimulations_isolates_failures_witness:
  "isl (applyAttack exampleAttackEnv [1, 1, 1, 1] ''jpeg_compression'')
   \<and> isl (applyAttack exampleAttackEnv [1, 1, 1, 1] ''blur'')
   \<and> length (runSimulations (exampleEnv []) exampleAttackEnv (exampleImage 1 ''K1'' JsonNull)
        [''jpeg_compression'', ''gaussian_noise'', ''blur'']) = 3
   \<and> runSimulations (exampleEnv []) exampleAttackEnv (exampleImage 1 ''K1'' JsonNull)
        [''jpeg_compression'', ''gaussian_noise'', ''blur''] ! 0 =
       \<lparr>attackType = ''jpeg_compression'', parameters = [],
        beforeImageData = ''AQEBAQ=='', afterImageData = ''AQEBAQ=='',
        verificationPassed = False, integrityLoss = Num 100, psnr = 0,
        extractionSuccessful = False\<rparr>
   \<and> attackType (runSimulations (exampleEnv []) exampleAttackEnv (exampleImage 1 ''K1'' JsonNull)
        [''jpeg_compression'', ''gaussian_noise'', ''blur''] ! 1) = ''gaussian_noise''
   \<and> psnr (runSimulations (exampleEnv []) exampleAttackEnv (exampleImage 1 ''K1'' JsonNull)
        [''jpeg_compression'', ''gaussian_noise'', ''blur''] ! 1) = 100
   \<and> runSimulations (exampleEnv []) exampleAttackEnv (exampleImage 1 ''K1'' JsonNull)
        [''jpeg_compression'', ''gaussian_noise'', ''blur''] ! 2 =
       \<lparr>attackType = ''blur'', parameters = [],
        beforeImageData = ''AQEBAQ=='', afterImageData = ''AQEBAQ=='',
        verificationPassed = False, integrityLoss = Num 100, psnr = 0,
        extractionSuccessful = False\<rparr>"
proof -
  let ?run = "runSimulations (exampleEnv []) exampleAttackEnv (exampleImage 1 ''K1'' JsonNull)
        [''jpeg_compression'', ''gaussian_noise'', ''blur'']"
  let ?kinds = "[''jpeg_compression'', ''gaussian_noise'', ''blur'']"
  have original: "fromBase64 exampleAttackEnv s = [1, 1, 1, 1]" for s
    by (simp add: exampleAttackEnv_def)
  have data: "imageData (exampleImage 1 ''K1'' JsonNull) = ''AQEBAQ==''"
    by (simp add: exampleImage_def)
  have f0: "isl (applyAttack exampleAttackEnv [1, 1, 1, 1] ''jpeg_compression'')"
    by (simp add: attack_eval)
  have f2: "isl (applyAttack exampleAttackEnv [1, 1, 1, 1] ''blur'')"
    by (simp add: attack_eval)
  note rs = runSimulations_isolates_failures
      [of "exampleEnv []" exampleAttackEnv "exampleImage 1 ''K1'' JsonNull" ?kinds,
       unfolded data original]
  note len' = rs [THEN conjunct1]
  note types = rs [THEN conjunct2, THEN conjunct1]
  note failing = rs [THEN conjunct2, THEN conjunct2, THEN conjunct1, rule_format]
  have len: "length ?run = 3"
    using len' by simp
  have r0: "?run ! 0 = \<lparr>attackType = ''jpeg_compression'', parameters = [],
        beforeImageData = ''AQEBAQ=='', afterImageData = ''AQEBAQ=='',
        verificationPassed = False, integrityLoss = Num 100, psnr = 0,
        extractionSuccessful = False\<rparr>"
    using failing [of 0] f0 by simp
  have r2: "?run ! 2 = \<lparr>attackType = ''blur'', parameters = [],
        beforeImageData = ''AQEBAQ=='', afterImageData = ''AQEBAQ=='',
        verificationPassed = False, integrityLoss = Num 100, psnr = 0,
        extractionSuccessful = False\<rparr>"
    using failing [of 2] f2 by simp
  have "map attackType ?run ! 1 = ?kinds ! 1"
    by (simp only: types)
  then have t1: "attackType (?run ! 1) = ''gaussian_noise''"
    using len by simp
  have p1: "psnr (?run ! 1) = 100"
    by (simp add: attack_eval simulationLoop_closed Let_def)
  show ?thesis
    using f0 f2 len r0 r2 t1 p1 by simp
qed

text \<open>
  The flag \<open>extractionSuccessful\<close> is computed as
  \<open>extractedSignature !== undefined\<close>, and \<open>verifyImage\<close> sets
  \<open>extractedSignature\<close> in its valid result only: the flag equals
  \<open>verificationPassed\<close> in every result of \<open>simulateAttack\<close>.
\<close>

lemma verifyLoop_signature_iff_valid:
  "verifyLoop env pixelData as = Inr r \<Longrightarrow> (extractedSignature r \<noteq> None) = isValid r"
  by (induction as)
     (auto simp add: verify_value validResult_def noMatchResult_def split: if_splits)

lemma verifyImage_signature_iff_valid:
  "(extractedSignature (verifyImage env imageBuffer) \<noteq> None) =
     isValid (verifyImage env imageBuffer)"
proof (cases "sharpRaw env imageBuffer")
  case (Inl e)
  then show ?thesis by (simp add: verifyImage_def failedResult_def)
next
  case (Inr pixelData)
  obtain r where r: "verifyLoop env pixelData (attemptSignatureExtraction env pixelData) = Inr r"
    using verifyLoop_total by blast
  then have "verifyImage env imageBuffer = r" using Inr by (simp add: verifyImage_def)
  then show ?thesis using verifyLoop_signature_iff_valid [OF r] by simp
qed

lemma extractionSuccessful_is_verificationPassed:
  "simulateAttack env aenv original kind = Inr r \<Longrightarrow>
     extractionSuccessful r = verificationPassed r"
proof -
  assume a: "simulateAttack env aenv original kind = Inr r"
  then obtain ps attacked where "applyAttack aenv original kind = Inr (ps, attacked)"
    by (auto simp add: simulateAttack_def split: sum.splits)
  then have "extractionSuccessful r = (extractedSignature (verifyImage env attacked) \<noteq> None)"
    and "verificationPassed r = isValid (verifyImage env attacked)"
    using a by (auto simp add: simulateAttack_def Let_def)
  then show ?thesis
    by (simp only: verifyImage_signature_iff_valid)
qed

text \<open>
  Claim C3 at one run. The store holds one record with the positions 0 to 3 and the key
  \<open>K1\<close>; the attacked image decodes to four samples whose least significant bits
  are 1111, so the scan extracts the signature \<open>f\<close>, which the check rejects. The
  result reports \<open>extractionSuccessful\<close> as false.
\<close>

theorem simulateAttack_extraction_flag:
  "map signature (attemptSignatureExtraction
       (exampleEnv [exampleImage 1 ''K1'' (JsonArray [0, 1, 2, 3])]) [1, 1, 1, 1]) = [''f'']
   \<and> simulateAttack (exampleEnv [exampleImage 1 ''K1'' (JsonArray [0, 1, 2, 3])])
        exampleAttackEnv [1, 1, 1, 1] ''gaussian_noise'' =
       Inr \<lparr>attackType = ''gaussian_noise'', parameters = [(''sigma'', 1 / 10)],
            beforeImageData = ''AQEBAQ=='', afterImageData = ''AQEBAQ=='',
            verificationPassed = False, integrityLoss = Num 100, psnr = 100,
            extractionSuccessful = False\<rparr>"
  by (simp add: attack_eval service_eval extractionLoop_closed attemptsOf_def example_bits)

end
